theory Spec2Isabelle
  imports Main "HOL-Library.Word" "HOL-Library.Multiset" "HOL-Library.Sublist"
begin

section \<open>Data model\<close>

text \<open>
  A text value (a Go \<open>string\<close> holding UTF-8, an SQLite \<open>TEXT\<close>) is the list of its
  characters, each character given by its code point: this is the unit that SQLite's
  \<open>LIKE\<close> wildcards and \<open>LENGTH\<close> count, and concatenating two well-formed strings
  concatenates their code point lists. \<open>ascii\<close> writes an ASCII literal.
\<close>

type_synonym str = "nat list"

definition ascii :: "string \<Rightarrow> str" where
  "ascii s = map of_char s"

text \<open>
  Go's \<open>int\<close> is taken at 64 bits (the width of an SQLite \<open>INTEGER\<close> as well):
  \<open>+\<close> wraps around, \<open>sint\<close> reads the signed value, and \<open>-1\<close> is the word of all ones.
\<close>

type_synonym go_int = "64 word"

text \<open>
  \<open>Suggestion\<close>, \<open>Token\<close> and \<open>Symbol\<close> are declared outside \<open>dictionary.go\<close>; the
  fields are the ones the file reads and writes (\<open>Suggestion{word, 0, 0}\<close>,
  \<open>item.Word\<close>, \<open>item.Weight\<close>, \<open>item.LearnedOn\<close>, \<open>t.tokenType\<close>, \<open>t.token\<close>,
  \<open>t.position\<close>, \<open>possibility.value1\<close>).
\<close>

record Suggestion =
  Word :: str
  Weight :: go_int
  LearnedOn :: go_int

record Symbol =
  value1 :: str

text \<open>
  Modelled from the spec: the token type constants are not in \<open>dictionary.go\<close>, which only
  compares \<open>t.tokenType\<close> with \<open>VARNAM_TOKEN_SYMBOL\<close>. The spec names the type \<open>SYMBOL\<close>
  and "a pass-through type for literals/unrecognized characters".
\<close>

datatype token_type = VARNAM_TOKEN_SYMBOL | VARNAM_TOKEN_PASS_THROUGH

record Token =
  tokenType :: token_type
  token :: "Symbol list"
  position :: go_int

record DictionaryResult =
  sugs :: "Suggestion list"
  exactMatch :: bool
  longestMatchPosition :: go_int


text \<open>
  The two relations that \<open>makeDictionary\<close> creates and the queries read:
  \<open>words (id integer primary key, word text unique, confidence integer default 1,
  learned_on integer)\<close> and \<open>patterns_content (pattern text, word_id integer,
  learned integer DEFAULT 0)\<close>. \<open>learned_on\<close> has no default, so it can be \<open>NULL\<close>
  (\<open>None\<close>); \<open>word\<close> and \<open>confidence\<close> are taken to hold values. SQLite does not enforce
  the foreign key of \<open>patterns_content\<close> unless asked to, so a \<open>word_id\<close> may refer to no row
  of \<open>words\<close>. A table is the list of its rows in the order in which the engine visits them.
  The connection \<open>varnam.dictConn\<close> is the pair of tables; a query that fails ends the
  process (\<open>log.Fatal\<close>) and is not part of the model.
\<close>

record words_row =
  id_col :: int
  word :: str
  confidence :: go_int
  learned_on :: "go_int option"

record patterns_row =
  pattern :: str
  word_id :: int
  learned :: go_int

record Varnam =
  words :: "words_row list"
  patterns_content :: "patterns_row list"

text \<open>
  The run-time panic of Go for an index outside a slice.
\<close>

datatype error = IndexOutOfRange

section \<open>The SQL of the queries\<close>

text \<open>
  SQLite's \<open>LIKE\<close> with its default settings (no \<open>ESCAPE\<close>, \<open>case_sensitive_like\<close> off, which
  is what \<open>openDB\<close> and \<open>makeDictionary\<close> leave in place): in the pattern \<open>%\<close> matches any
  sequence of zero or more characters and \<open>_\<close> matches exactly one character; any other
  character matches itself, and an ASCII letter also matches its other case. In the
  definitions, 37 is the code point of \<open>%\<close>, 95 that of \<open>_\<close>, and 65 to 90 are the letters
  \<open>A\<close> to \<open>Z\<close>, which \<open>ascii_lower\<close> maps to \<open>a\<close> to \<open>z\<close>.
\<close>

definition ascii_lower :: "nat \<Rightarrow> nat" where
  "ascii_lower c = (if 65 \<le> c \<and> c \<le> 90 then c + 32 else c)"

fun like_match :: "str \<Rightarrow> str \<Rightarrow> bool" where
  "like_match [] [] = True"
| "like_match [] (c # cs) = False"
| "like_match (p # ps) [] = (p = 37 \<and> like_match ps [])"
| "like_match (p # ps) (c # cs) =
     (if p = 37 then like_match ps (c # cs) \<or> like_match (p # ps) cs
      else (p = 95 \<or> ascii_lower p = ascii_lower c) \<and> like_match ps cs)"

text \<open>\<open>sql_like x y\<close> is the SQL expression \<open>x LIKE y\<close>: \<open>y\<close> is the pattern.\<close>

definition sql_like :: "str \<Rightarrow> str \<Rightarrow> bool" where
  "sql_like x y = like_match y x"

text \<open>
  \<open>ORDER BY k DESC\<close> on a signed key. SQL leaves the order of rows with equal keys to the
  engine; the model keeps them in table order (a stable sort).
\<close>

definition order_by_desc :: "('a \<Rightarrow> int) \<Rightarrow> 'a list \<Rightarrow> 'a list" where
  "order_by_desc k rows = sort_key (\<lambda>r. - k r) rows"

text \<open>\<open>learned_on > 0\<close>: a comparison with \<open>NULL\<close> is not true.\<close>

definition learned_on_gt0 :: "words_row \<Rightarrow> bool" where
  "learned_on_gt0 r = (case learned_on r of None \<Rightarrow> False | Some l \<Rightarrow> 0 < sint l)"

text \<open>
  The \<open>WHERE\<close> clause of \<open>searchDictionary\<close> is the text
  \<open>word LIKE ? \<close> followed by one \<open>OR word LIKE ? \<close> for each further candidate and, when
  \<open>all\<close> is set, by \<open> AND learned_on > 0\<close>. In SQL \<open>AND\<close> binds tighter than \<open>OR\<close>, so
  the text reads \<open>word LIKE ?1 OR ... OR (word LIKE ?n AND learned_on > 0)\<close>.
\<close>

fun where_like :: "str list \<Rightarrow> words_row \<Rightarrow> bool" where
  "where_like [] r = False"
| "where_like (v # vs) r = (sql_like (word r) v \<or> where_like vs r)"

fun where_like_learned :: "str list \<Rightarrow> words_row \<Rightarrow> bool" where
  "where_like_learned [] r = False"
| "where_like_learned [v] r = (sql_like (word r) v \<and> learned_on_gt0 r)"
| "where_like_learned (v # vs) r = (sql_like (word r) v \<or> where_like_learned vs r)"

section \<open>searchDictionary\<close>

text \<open>
  \<open>rows.Scan(&item.Word, &item.Weight, &item.LearnedOn)\<close>: the columns are assigned in
  order; a \<open>NULL\<close> in \<open>learned_on\<close> makes \<open>Scan\<close> return an error, which the code ignores,
  and leaves \<open>LearnedOn\<close> at its zero value.
\<close>

definition scan_word :: "words_row \<Rightarrow> Suggestion" where
  "scan_word r = \<lparr>Word = word r, Weight = confidence r,
     LearnedOn = (case learned_on r of None \<Rightarrow> 0 | Some l \<Rightarrow> l)\<rparr>"

definition searchDictionary :: "Varnam \<Rightarrow> str list \<Rightarrow> bool \<Rightarrow> error + Suggestion list" where
  "searchDictionary varnam ws all =
     (case ws of
        [] \<Rightarrow> Inl IndexOutOfRange
      | w0 # rest \<Rightarrow>
          let vals = (if all then w0 @ ascii ''_%'' else w0)
                       # map (\<lambda>w. if all then w @ ascii ''_%'' else w) rest;
              selected = filter (if all then where_like_learned vals else where_like vals)
                           (words varnam)
          in Inr (map scan_word (take 5 (order_by_desc (\<lambda>r. sint (confidence r)) selected))))"

section \<open>getFromDictionary\<close>

text \<open>
  The loop over the other possibilities (\<open>k > 0\<close>) of the token, for one in-flight
  candidate whose word before the extension was \<open>till\<close>. The state is the pair of
  \<open>results\<close> and \<open>tempFoundDictWords\<close>.
\<close>

fun other_possibilities ::
  "Varnam \<Rightarrow> str \<Rightarrow> Symbol list \<Rightarrow> Suggestion list \<times> Suggestion list
     \<Rightarrow> error + Suggestion list \<times> Suggestion list" where
  "other_possibilities varnam till [] (results, tempFound) = Inr (results, tempFound)"
| "other_possibilities varnam till (possibility # ps) (results, tempFound) =
     (let newTill = till @ value1 possibility in
      case searchDictionary varnam [newTill] False of
        Inl e \<Rightarrow> Inl e
      | Inr searchResults \<Rightarrow>
          (case searchResults of
             [] \<Rightarrow> other_possibilities varnam till ps (results, tempFound)
           | r0 # _ \<Rightarrow>
               other_possibilities varnam till ps
                 (results @ [\<lparr>Word = newTill, Weight = 0, LearnedOn = 0\<rparr>], tempFound @ [r0])))"

text \<open>
  The first possibility, for the in-flight candidate at index \<open>j\<close>: \<open>results[j].Word\<close> is
  extended in place and looked up; a hit is appended to \<open>tempFoundDictWords\<close>, a miss sets
  \<open>results[j].Weight\<close> to \<open>-1\<close>.
\<close>

definition first_possibility ::
  "Varnam \<Rightarrow> Symbol \<Rightarrow> nat \<Rightarrow> Suggestion list \<times> Suggestion list
     \<Rightarrow> error + Suggestion list \<times> Suggestion list" where
  "first_possibility varnam firstToken j s =
     (let results = fst s; tempFound = snd s;
          extended = (results ! j)\<lparr>Word := Word (results ! j) @ value1 firstToken\<rparr>;
          results1 = list_update results j extended
      in case searchDictionary varnam [Word (results1 ! j)] False of
           Inl e \<Rightarrow> Inl e
         | Inr [] \<Rightarrow> Inr (list_update results1 j ((results1 ! j)\<lparr>Weight := - 1\<rparr>), tempFound)
         | Inr (r0 # _) \<Rightarrow> Inr (results1, tempFound @ [r0]))"

text \<open>
  The body of \<open>for j, result := range results\<close> for the index \<open>j\<close>. Entry \<open>j\<close> is written
  only in iteration \<open>j\<close> and appended entries lie beyond the visited range, so the copy
  \<open>result\<close> that \<open>range\<close> hands out is entry \<open>j\<close> of the current \<open>results\<close>.
  \<open>t.token[0]\<close> panics when the token has no possibility.
\<close>

definition candidate_body ::
  "Varnam \<Rightarrow> Token \<Rightarrow> nat \<Rightarrow> Suggestion list \<times> Suggestion list
     \<Rightarrow> error + Suggestion list \<times> Suggestion list" where
  "candidate_body varnam t j s =
     (let result = fst s ! j in
      if Weight result = - 1 then Inr s
      else
        case token t of
          [] \<Rightarrow> Inl IndexOutOfRange
        | firstToken # others \<Rightarrow>
            (case first_possibility varnam firstToken j s of
               Inl e \<Rightarrow> Inl e
             | Inr s1 \<Rightarrow> other_possibilities varnam (Word result) others s1))"

text \<open>
  The loop itself. The range expression is evaluated once, so the loop visits the indices
  below the length that \<open>results\<close> had when the loop started: \<open>n\<close> counts the indices still
  to visit, starting at \<open>j\<close>.
\<close>

fun range_results ::
  "Varnam \<Rightarrow> Token \<Rightarrow> nat \<Rightarrow> nat \<Rightarrow> Suggestion list \<times> Suggestion list
     \<Rightarrow> error + Suggestion list \<times> Suggestion list" where
  "range_results varnam t j 0 s = Inr s"
| "range_results varnam t j (Suc n) s =
     (case candidate_body varnam t j s of
        Inl e \<Rightarrow> Inl e
      | Inr s' \<Rightarrow> range_results varnam t (Suc j) n s')"

text \<open>
  The loop state of \<open>getFromDictionary\<close>: \<open>results\<close> (the in-flight candidates),
  \<open>foundDictWords\<close> and \<open>foundPosition\<close>.
\<close>

record match_state =
  results :: "Suggestion list"
  foundDictWords :: "Suggestion list"
  foundPosition :: go_int

definition seed :: "Symbol \<Rightarrow> Suggestion" where
  "seed possibility = \<lparr>Word = value1 possibility, Weight = 0, LearnedOn = 0\<rparr>"

text \<open>The body of \<open>for i, t := range tokens\<close>, for the token \<open>t\<close> at index \<open>i\<close>.\<close>

definition token_body :: "Varnam \<Rightarrow> nat \<Rightarrow> Token \<Rightarrow> match_state \<Rightarrow> error + match_state" where
  "token_body varnam i t s =
     (case (if tokenType t = VARNAM_TOKEN_SYMBOL then
              if i = 0 then
                Inr (results s @ map seed (token t), map seed (token t))
              else range_results varnam t 0 (length (results s)) (results s, [])
            else Inr (results s, [])) of
        Inl e \<Rightarrow> Inl e
      | Inr (results', tempFoundDictWords) \<Rightarrow>
          if 0 < i \<and> tempFoundDictWords \<noteq> [] then
            Inr \<lparr>results = results', foundDictWords = tempFoundDictWords,
                 foundPosition = position t\<rparr>
          else Inr (s\<lparr>results := results'\<rparr>))"

fun tokens_loop :: "Varnam \<Rightarrow> nat \<Rightarrow> Token list \<Rightarrow> match_state \<Rightarrow> error + match_state" where
  "tokens_loop varnam i [] s = Inr s"
| "tokens_loop varnam i (t # ts) s =
     (case token_body varnam i t s of
        Inl e \<Rightarrow> Inl e
      | Inr s' \<Rightarrow> tokens_loop varnam (Suc i) ts s')"

definition init_state :: match_state where
  "init_state = \<lparr>results = [], foundDictWords = [], foundPosition = 0\<rparr>"

definition getFromDictionary :: "Varnam \<Rightarrow> Token list \<Rightarrow> error + DictionaryResult" where
  "getFromDictionary varnam tokens =
     (case tokens_loop varnam 0 tokens init_state of
        Inl e \<Rightarrow> Inl e
      | Inr s \<Rightarrow>
          if tokens = [] then Inl IndexOutOfRange
          else Inr \<lparr>sugs = foundDictWords s,
                    exactMatch = (foundPosition s = position (last tokens)),
                    longestMatchPosition = foundPosition s\<rparr>)"

section \<open>getMoreFromDictionary\<close>

fun getMoreFromDictionary :: "Varnam \<Rightarrow> Suggestion list \<Rightarrow> error + Suggestion list list" where
  "getMoreFromDictionary varnam [] = Inr []"
| "getMoreFromDictionary varnam (sug # rest) =
     (case searchDictionary varnam [Word sug] True of
        Inl e \<Rightarrow> Inl e
      | Inr searchResults \<Rightarrow>
          (case getMoreFromDictionary varnam rest of
             Inl e \<Rightarrow> Inl e
           | Inr further \<Rightarrow> Inr (searchResults # further)))"

section \<open>The pattern dictionary\<close>





section \<open>Example stores and inputs\<close>

text \<open>Concrete values on which the theorems below are instantiated.\<close>

definition symbol_token :: "string list \<Rightarrow> go_int \<Rightarrow> Token" where
  "symbol_token ps pos =
     \<lparr>tokenType = VARNAM_TOKEN_SYMBOL, token = map (\<lambda>p. \<lparr>value1 = ascii p\<rparr>) ps, position = pos\<rparr>"

definition literal_token :: "go_int \<Rightarrow> Token" where
  "literal_token pos = \<lparr>tokenType = VARNAM_TOKEN_PASS_THROUGH, token = [], position = pos\<rparr>"

definition empty_store :: Varnam where
  "empty_store = \<lparr>words = [], patterns_content = []\<rparr>"

definition store_ay :: Varnam where
  "store_ay = \<lparr>words = [\<lparr>id_col = 1, word = ascii ''ay'', confidence = 4, learned_on = Some 9\<rparr>],
               patterns_content = []\<rparr>"





definition store_prefix :: Varnam where
  "store_prefix =
     \<lparr>words = [\<lparr>id_col = 1, word = ascii ''ax'', confidence = 2, learned_on = Some 0\<rparr>,
               \<lparr>id_col = 2, word = ascii ''ab'', confidence = 1, learned_on = Some 5\<rparr>],
      patterns_content = []\<rparr>"


definition store_branch :: Varnam where
  "store_branch =
     \<lparr>words = [\<lparr>id_col = 1, word = ascii ''ay'', confidence = 4, learned_on = Some 9\<rparr>,
               \<lparr>id_col = 2, word = ascii ''bx'', confidence = 2, learned_on = Some 9\<rparr>,
               \<lparr>id_col = 3, word = ascii ''bxz'', confidence = 3, learned_on = Some 9\<rparr>],
      patterns_content = []\<rparr>"

definition seeded_ab :: match_state where
  "seeded_ab = \<lparr>results = [\<lparr>Word = ascii ''a'', Weight = 0, LearnedOn = 0\<rparr>,
                            \<lparr>Word = ascii ''b'', Weight = 0, LearnedOn = 0\<rparr>],
                 foundDictWords = [], foundPosition = 0\<rparr>"

definition pruned_ab :: match_state where
  "pruned_ab = \<lparr>results = [\<lparr>Word = ascii ''ax'', Weight = - 1, LearnedOn = 0\<rparr>,
                            \<lparr>Word = ascii ''bx'', Weight = 0, LearnedOn = 0\<rparr>,
                            \<lparr>Word = ascii ''ay'', Weight = 0, LearnedOn = 0\<rparr>],
                 foundDictWords = [\<lparr>Word = ascii ''ay'', Weight = 4, LearnedOn = 9\<rparr>,
                                   \<lparr>Word = ascii ''bx'', Weight = 2, LearnedOn = 9\<rparr>],
                 foundPosition = 1\<rparr>"

lemmas matcher_defs =
  getFromDictionary_def token_body_def candidate_body_def first_possibility_def
  searchDictionary_def init_state_def seed_def scan_word_def order_by_desc_def sql_like_def
  ascii_def ascii_lower_def symbol_token_def literal_token_def Let_def

section \<open>The list accesses of the two functions\<close>

lemma searchDictionary_Nil: "searchDictionary varnam [] all = Inl IndexOutOfRange"
  by (simp add: searchDictionary_def)

lemma searchDictionary_Cons: "\<exists>r. searchDictionary varnam (w # ws) all = Inr r"
  by (simp add: searchDictionary_def Let_def)

lemma other_possibilities_Inr: "\<exists>s'. other_possibilities varnam till ps s = Inr s'"
proof (induction ps arbitrary: s)
  case Nil
  then show ?case by (cases s) simp
next
  case (Cons p ps)
  obtain rs tf where s: "s = (rs, tf)" by (cases s)
  obtain sr where sr: "searchDictionary varnam [till @ value1 p] False = Inr sr"
    using searchDictionary_Cons by blast
  show ?case
    using Cons.IH by (cases sr) (simp_all add: s sr Let_def)
qed

lemma first_possibility_Inr: "\<exists>s'. first_possibility varnam f j s = Inr s'"
proof -
  obtain sr where sr: "searchDictionary varnam
      [Word (list_update (fst s) j ((fst s ! j)\<lparr>Word := Word (fst s ! j) @ value1 f\<rparr>) ! j)] False
        = Inr sr"
    using searchDictionary_Cons by blast
  show ?thesis
    by (cases sr) (simp_all add: first_possibility_def Let_def sr)
qed

lemma candidate_body_Inr:
  assumes "token t \<noteq> [] \<or> Weight (fst s ! j) = - 1"
  shows "\<exists>s'. candidate_body varnam t j s = Inr s'"
proof (cases "Weight (fst s ! j) = - 1")
  case True
  then show ?thesis by (simp add: candidate_body_def)
next
  case False
  with assms obtain f others where t: "token t = f # others" by (cases "token t") auto
  obtain s1 where s1: "first_possibility varnam f j s = Inr s1"
    using first_possibility_Inr by blast
  show ?thesis
    using False other_possibilities_Inr [of varnam "Word (fst s ! j)" others s1]
    by (simp add: candidate_body_def t s1)
qed

lemma range_results_Inr:
  assumes "token t \<noteq> []"
  shows "\<exists>s'. range_results varnam t j n s = Inr s'"
proof (induction n arbitrary: j s)
  case 0
  then show ?case by simp
next
  case (Suc n)
  obtain s1 where "candidate_body varnam t j s = Inr s1"
    using candidate_body_Inr assms by blast
  then show ?case using Suc.IH by simp
qed

lemma token_body_Inr:
  assumes "0 < i \<Longrightarrow> tokenType t = VARNAM_TOKEN_SYMBOL \<Longrightarrow> token t \<noteq> []"
  shows "\<exists>s'. token_body varnam i t s = Inr s'"
proof (cases "tokenType t = VARNAM_TOKEN_SYMBOL \<and> 0 < i")
  case True
  then obtain s1 where "range_results varnam t 0 (length (results s)) (results s, []) = Inr s1"
    using range_results_Inr assms by blast
  then show ?thesis using True by (cases s1) (simp add: token_body_def)
next
  case False
  then show ?thesis by (auto simp add: token_body_def)
qed

lemma tokens_loop_Inr:
  assumes "0 < i" and "\<forall>t\<in>set ts. tokenType t = VARNAM_TOKEN_SYMBOL \<longrightarrow> token t \<noteq> []"
  shows "\<exists>s'. tokens_loop varnam i ts s = Inr s'"
  using assms
proof (induction ts arbitrary: i s)
  case Nil
  then show ?case by simp
next
  case (Cons t ts)
  obtain s1 where "token_body varnam i t s = Inr s1"
    using token_body_Inr [of i t varnam s] Cons.prems by auto
  then show ?case using Cons.IH [of "Suc i" s1] Cons.prems by simp
qed

lemma getFromDictionary_Inr:
  assumes "\<forall>t\<in>set ts. tokenType t = VARNAM_TOKEN_SYMBOL \<longrightarrow> token t \<noteq> []"
  shows "\<exists>r. getFromDictionary varnam (t # ts) = Inr r"
proof -
  obtain s1 where s1: "token_body varnam 0 t init_state = Inr s1"
    using token_body_Inr [of 0 t varnam init_state] by auto
  obtain s2 where "tokens_loop varnam (Suc 0) ts s1 = Inr s2"
    using tokens_loop_Inr [of "Suc 0" ts varnam s1] assms by auto
  then show ?thesis by (simp add: getFromDictionary_def s1)
qed

section \<open>The result of the matcher\<close>

text \<open>
  C9. For an input of exactly one token, whatever its type, its possibilities and the store,
  \<open>getFromDictionary\<close> returns no suggestion and the longest-match position 0: what the
  first iteration finds is committed only when the loop index is greater than 0. The
  exact-match flag is then true exactly when the position field of that token is 0.
\<close>

theorem single_token_result:
  "getFromDictionary varnam [t] =
     Inr \<lparr>sugs = [], exactMatch = (position t = 0), longestMatchPosition = 0\<rparr>"
  by (cases "tokenType t") (auto simp add: getFromDictionary_def token_body_def init_state_def)

theorem single_token_result_witness:
  "getFromDictionary store_ay [symbol_token [''ay''] 0] =
     Inr \<lparr>sugs = [], exactMatch = True, longestMatchPosition = 0\<rparr>"
  using single_token_result [of store_ay "symbol_token [''ay''] 0"]
  by (simp add: symbol_token_def)

text \<open>
  C2. For every non-empty token sequence, the result that \<open>getFromDictionary\<close> returns has
  its exact-match flag true if and only if its longest-match position equals the position
  field of the last token. A result is returned whenever every \<open>SYMBOL\<close> token after the
  first has a possibility.
\<close>

theorem exact_match_flag:
  assumes "tokens \<noteq> []"
  shows "(\<forall>r. getFromDictionary varnam tokens = Inr r \<longrightarrow>
            exactMatch r = (longestMatchPosition r = position (last tokens)))
       \<and> ((\<forall>t\<in>set (tl tokens). tokenType t = VARNAM_TOKEN_SYMBOL \<longrightarrow> token t \<noteq> []) \<longrightarrow>
            (\<exists>r. getFromDictionary varnam tokens = Inr r))"
proof
  show "\<forall>r. getFromDictionary varnam tokens = Inr r \<longrightarrow>
            exactMatch r = (longestMatchPosition r = position (last tokens))"
    using assms by (auto simp add: getFromDictionary_def split: sum.splits)
next
  obtain t ts where "tokens = t # ts" using assms by (cases tokens) auto
  then show "(\<forall>t\<in>set (tl tokens). tokenType t = VARNAM_TOKEN_SYMBOL \<longrightarrow> token t \<noteq> []) \<longrightarrow>
            (\<exists>r. getFromDictionary varnam tokens = Inr r)"
    using getFromDictionary_Inr [of ts varnam t] by auto
qed

theorem exact_match_flag_witness:
  "getFromDictionary store_ay [symbol_token [''a''] 0, symbol_token [''x'', ''y''] 1] =
     Inr \<lparr>sugs = [\<lparr>Word = ascii ''ay'', Weight = 4, LearnedOn = 9\<rparr>],
          exactMatch = True, longestMatchPosition = 1\<rparr>
   \<and> position (last [symbol_token [''a''] 0, symbol_token [''x'', ''y''] 1]) = 1"
proof -
  let ?tokens = "[symbol_token [''a''] 0, symbol_token [''x'', ''y''] 1]"
  have ne: "?tokens \<noteq> []" by simp
  have poss: "\<forall>t\<in>set (tl ?tokens). tokenType t = VARNAM_TOKEN_SYMBOL \<longrightarrow> token t \<noteq> []"
    by (simp add: symbol_token_def)
  have run: "getFromDictionary store_ay ?tokens =
     Inr \<lparr>sugs = [\<lparr>Word = ascii ''ay'', Weight = 4, LearnedOn = 9\<rparr>],
          exactMatch = True, longestMatchPosition = 1\<rparr>"
    by (simp add: matcher_defs store_ay_def)
  from exact_match_flag [OF ne, of store_ay] poss run
  have "exactMatch \<lparr>sugs = [\<lparr>Word = ascii ''ay'', Weight = 4, LearnedOn = 9\<rparr>],
          exactMatch = True, longestMatchPosition = 1\<rparr>
        = (longestMatchPosition \<lparr>sugs = [\<lparr>Word = ascii ''ay'', Weight = 4, LearnedOn = 9\<rparr>],
          exactMatch = True, longestMatchPosition = 1\<rparr> = position (last ?tokens))"
    by blast
  then show ?thesis using run by simp
qed

text \<open>
  C10 (as amended). \<open>searchDictionary\<close> reads \<open>words[0]\<close> and \<open>getFromDictionary\<close> reads
  \<open>tokens[len(tokens)-1]\<close> without a check: each panics on the empty list, and
  \<open>searchDictionary\<close> panics on no other list. On a non-empty token list every access of
  \<open>getFromDictionary\<close> is in bounds provided every \<open>SYMBOL\<close> token after the first has at
  least one possibility: \<open>t.token[0]\<close> is read without a check as well.
\<close>

theorem list_access_safety:
  "(searchDictionary varnam ws all = Inl IndexOutOfRange \<longleftrightarrow> ws = [])
   \<and> getFromDictionary varnam [] = Inl IndexOutOfRange
   \<and> (tokens \<noteq> [] \<and> (\<forall>t\<in>set (tl tokens). tokenType t = VARNAM_TOKEN_SYMBOL \<longrightarrow> token t \<noteq> [])
        \<longrightarrow> (\<exists>r. getFromDictionary varnam tokens = Inr r))"
proof (intro conjI)
  show "searchDictionary varnam ws all = Inl IndexOutOfRange \<longleftrightarrow> ws = []"
    by (cases ws) (simp_all add: searchDictionary_def Let_def)
next
  show "getFromDictionary varnam [] = Inl IndexOutOfRange"
    by (simp add: getFromDictionary_def)
next
  show "tokens \<noteq> [] \<and> (\<forall>t\<in>set (tl tokens). tokenType t = VARNAM_TOKEN_SYMBOL \<longrightarrow> token t \<noteq> [])
        \<longrightarrow> (\<exists>r. getFromDictionary varnam tokens = Inr r)"
    using getFromDictionary_Inr [of "tl tokens" varnam "hd tokens"]
    by (cases tokens) auto
qed

theorem list_access_safety_witness:
  "searchDictionary store_ay [ascii ''ay''] False \<noteq> Inl IndexOutOfRange
   \<and> getFromDictionary store_ay [] = Inl IndexOutOfRange
   \<and> getFromDictionary store_ay [symbol_token [''a''] 0, symbol_token [''x'', ''y''] 1]
        \<noteq> Inl IndexOutOfRange"
proof -
  let ?tokens = "[symbol_token [''a''] 0, symbol_token [''x'', ''y''] 1]"
  have pre: "?tokens \<noteq> []
      \<and> (\<forall>t\<in>set (tl ?tokens). tokenType t = VARNAM_TOKEN_SYMBOL \<longrightarrow> token t \<noteq> [])"
    by (simp add: symbol_token_def)
  have ne: "[ascii ''ay''] \<noteq> []" by simp
  from list_access_safety [of store_ay "[ascii ''ay'']" False ?tokens] pre ne
  show ?thesis by auto
qed

text \<open>
  The claim C10 as it stands fails on a non-empty token list: a second \<open>SYMBOL\<close> token
  without possibilities makes \<open>t.token[0]\<close> panic while the seeded candidate is live.
\<close>

theorem nonempty_tokens_panic_counterexample:
  "[symbol_token [''a''] 0, symbol_token [] 1] \<noteq> []
   \<and> getFromDictionary empty_store [symbol_token [''a''] 0, symbol_token [] 1]
        = Inl IndexOutOfRange"
  by (simp add: matcher_defs empty_store_def)

section \<open>Seeding\<close>

lemma tokens_loop_no_candidates:
  assumes "0 < i" and "results s = []"
  shows "tokens_loop varnam i ts s = Inr s"
  using assms
proof (induction ts arbitrary: i)
  case Nil
  then show ?case by simp
next
  case (Cons t ts)
  have "token_body varnam i t s = Inr s"
    using Cons.prems by (simp add: token_body_def)
  then show ?case using Cons.IH [of "Suc i"] Cons.prems by simp
qed

text \<open>
  C3 (as amended). Seeding applies to the token at index 0 only. If that token is of type
  \<open>SYMBOL\<close>, one in-flight \<open>Suggestion\<close> is created per possibility, with the possibility's
  literal string as word and weight 0, without any lookup (the result does not depend on the
  store). If it is not, no candidate is ever created: the loop leaves its initial state
  unchanged whatever follows, and the matcher returns no suggestion.
\<close>

theorem seeding_first_token:
  "(tokenType t = VARNAM_TOKEN_SYMBOL \<longrightarrow>
      token_body varnam 0 t init_state =
        Inr (init_state\<lparr>results :=
               map (\<lambda>possibility. \<lparr>Word = value1 possibility, Weight = 0, LearnedOn = 0\<rparr>)
                 (token t)\<rparr>))
   \<and> (tokenType t \<noteq> VARNAM_TOKEN_SYMBOL \<longrightarrow>
        tokens_loop varnam 0 (t # ts) init_state = Inr init_state
        \<and> getFromDictionary varnam (t # ts) =
            Inr \<lparr>sugs = [], exactMatch = (0 = position (last (t # ts))),
                 longestMatchPosition = 0\<rparr>)"
proof (intro conjI impI)
  assume "tokenType t = VARNAM_TOKEN_SYMBOL"
  then show "token_body varnam 0 t init_state =
        Inr (init_state\<lparr>results :=
               map (\<lambda>possibility. \<lparr>Word = value1 possibility, Weight = 0, LearnedOn = 0\<rparr>)
                 (token t)\<rparr>)"
    by (simp add: token_body_def init_state_def seed_def)
next
  assume t: "tokenType t \<noteq> VARNAM_TOKEN_SYMBOL"
  have b: "token_body varnam 0 t init_state = Inr init_state"
    using t by (simp add: token_body_def init_state_def)
  show l: "tokens_loop varnam 0 (t # ts) init_state = Inr init_state"
    using b tokens_loop_no_candidates [of "Suc 0" init_state varnam ts]
    by (simp add: init_state_def)
  show "getFromDictionary varnam (t # ts) =
            Inr \<lparr>sugs = [], exactMatch = (0 = position (last (t # ts))),
                 longestMatchPosition = 0\<rparr>"
    unfolding getFromDictionary_def l by (simp add: init_state_def)
qed

theorem seeding_first_token_witness:
  "token_body store_ay 0 (symbol_token [''a'', ''b''] 0) init_state =
     Inr \<lparr>results = [\<lparr>Word = ascii ''a'', Weight = 0, LearnedOn = 0\<rparr>,
                     \<lparr>Word = ascii ''b'', Weight = 0, LearnedOn = 0\<rparr>],
          foundDictWords = [], foundPosition = 0\<rparr>
   \<and> getFromDictionary store_ay [literal_token 0, symbol_token [''a''] 1, symbol_token [''y''] 2] =
       Inr \<lparr>sugs = [], exactMatch = False, longestMatchPosition = 0\<rparr>"
proof -
  have sym: "tokenType (symbol_token [''a'', ''b''] 0) = VARNAM_TOKEN_SYMBOL"
    by (simp add: symbol_token_def)
  have lit: "tokenType (literal_token 0) \<noteq> VARNAM_TOKEN_SYMBOL"
    by (simp add: literal_token_def)
  from seeding_first_token [of "symbol_token [''a'', ''b''] 0" store_ay] sym
  have "token_body store_ay 0 (symbol_token [''a'', ''b''] 0) init_state =
        Inr (init_state\<lparr>results :=
               map (\<lambda>possibility. \<lparr>Word = value1 possibility, Weight = 0, LearnedOn = 0\<rparr>)
                 (token (symbol_token [''a'', ''b''] 0))\<rparr>)"
    by blast
  moreover
  from seeding_first_token
         [of "literal_token 0" store_ay "[symbol_token [''a''] 1, symbol_token [''y''] 2]"] lit
  have "getFromDictionary store_ay
          [literal_token 0, symbol_token [''a''] 1, symbol_token [''y''] 2] =
        Inr \<lparr>sugs = [],
             exactMatch = (0 = position (last [literal_token 0, symbol_token [''a''] 1,
                                               symbol_token [''y''] 2])),
             longestMatchPosition = 0\<rparr>"
    by blast
  ultimately show ?thesis
    by (simp add: symbol_token_def init_state_def ascii_def)
qed

text \<open>
  The claim C3 as it stands fails when the first \<open>SYMBOL\<close> token is not the first token:
  after a literal token and a \<open>SYMBOL\<close> token with one possibility, no candidate is in flight.
\<close>

theorem seeding_counterexample:
  "tokenType (literal_token 0) \<noteq> VARNAM_TOKEN_SYMBOL
   \<and> tokenType (symbol_token [''a''] 1) = VARNAM_TOKEN_SYMBOL
   \<and> token (symbol_token [''a''] 1) = [\<lparr>value1 = ascii ''a''\<rparr>]
   \<and> tokens_loop store_ay 0 [literal_token 0, symbol_token [''a''] 1] init_state
       = Inr \<lparr>results = [], foundDictWords = [], foundPosition = 0\<rparr>"
  by (simp add: matcher_defs)

section \<open>Facts about the SQL of the queries\<close>

lemma like_match_Nil [simp]: "like_match [] s = (s = [])"
  by (cases s) simp_all


lemma like_match_percent [simp]: "like_match [37] s"
  by (induction s) simp_all









lemma order_by_desc_length: "length (order_by_desc k xs) = length xs"
  by (simp add: order_by_desc_def)


section \<open>searchDictionary, exact mode\<close>








section \<open>getFromPatternDictionary\<close>






section \<open>getTrailingFromPatternDictionary\<close>






section \<open>searchDictionary, prefix mode\<close>










text \<open>
  With two candidates the test \<open>learned_on > 0\<close> belongs to the last \<open>LIKE\<close> only
  (\<open>AND\<close> binds tighter than \<open>OR\<close>): the row of \<open>ax\<close>, with \<open>learned_on = 0\<close>, is returned
  through the first candidate.
\<close>

lemma unlearnt_row_through_first_candidate:
  "searchDictionary store_prefix [ascii ''a'', ascii ''b''] True =
     Inr [\<lparr>Word = ascii ''ax'', Weight = 2, LearnedOn = 0\<rparr>,
          \<lparr>Word = ascii ''ab'', Weight = 1, LearnedOn = 5\<rparr>]"
  by (simp add: matcher_defs store_prefix_def learned_on_gt0_def)


section \<open>The weights of the pattern dictionary\<close>








section \<open>Dead branches\<close>

text \<open>The inner loops, entry by entry.\<close>

lemma searchDictionary_one:
  "\<exists>sr. searchDictionary varnam [w] False = Inr sr"
  using searchDictionary_Cons by blast

lemma first_possibility_eq:
  assumes "j < length rs"
  shows "first_possibility varnam f j (rs, tf) =
     (case searchDictionary varnam [Word (rs ! j) @ value1 f] False of
        Inl e \<Rightarrow> Inl e
      | Inr [] \<Rightarrow>
          Inr (rs[j := (rs ! j)\<lparr>Word := Word (rs ! j) @ value1 f, Weight := - 1\<rparr>], tf)
      | Inr (r0 # _) \<Rightarrow>
          Inr (rs[j := (rs ! j)\<lparr>Word := Word (rs ! j) @ value1 f\<rparr>], tf @ [r0]))"
  using assms
  by (simp add: first_possibility_def Let_def split: sum.splits list.splits)

lemma other_possibilities_grows:
  "other_possibilities varnam till ps (rs, tf) = Inr (rs', tf') \<Longrightarrow> prefix rs rs' \<and> prefix tf tf'"
proof (induction ps arbitrary: rs tf)
  case Nil
  then show ?case by simp
next
  case (Cons p ps)
  obtain sr where sr: "searchDictionary varnam [till @ value1 p] False = Inr sr"
    using searchDictionary_one by blast
  show ?case
  proof (cases sr)
    case Nil
    then have "other_possibilities varnam till ps (rs, tf) = Inr (rs', tf')"
      using Cons.prems sr by (simp add: Let_def)
    then show ?thesis using Cons.IH by blast
  next
    case (Cons r0 rest)
    then have "other_possibilities varnam till ps
        (rs @ [\<lparr>Word = till @ value1 p, Weight = 0, LearnedOn = 0\<rparr>], tf @ [r0]) = Inr (rs', tf')"
      using Cons.prems sr by (simp add: Let_def)
    then have "prefix (rs @ [\<lparr>Word = till @ value1 p, Weight = 0, LearnedOn = 0\<rparr>]) rs'
        \<and> prefix (tf @ [r0]) tf'"
      using Cons.IH by blast
    then show ?thesis using append_prefixD by blast
  qed
qed

lemma other_possibilities_hit:
  assumes "other_possibilities varnam till ps (rs, tf) = Inr (rs', tf')"
    and "p \<in> set ps"
    and "searchDictionary varnam [till @ value1 p] False = Inr (r0 # rest)"
  shows "r0 \<in> set tf'"
  using assms
proof (induction ps arbitrary: rs tf)
  case Nil
  then show ?case by simp
next
  case (Cons q ps)
  obtain sr where sr: "searchDictionary varnam [till @ value1 q] False = Inr sr"
    using searchDictionary_one by blast
  show ?case
  proof (cases sr)
    case Nil
    then have run: "other_possibilities varnam till ps (rs, tf) = Inr (rs', tf')"
      using Cons.prems(1) sr by (simp add: Let_def)
    have "p \<noteq> q" using Nil sr Cons.prems(3) by auto
    then have "p \<in> set ps" using Cons.prems(2) by simp
    then show ?thesis using Cons.IH run Cons.prems(3) by blast
  next
    case (Cons q0 qrest)
    then have run: "other_possibilities varnam till ps
        (rs @ [\<lparr>Word = till @ value1 q, Weight = 0, LearnedOn = 0\<rparr>], tf @ [q0]) = Inr (rs', tf')"
      using Cons.prems(1) sr by (simp add: Let_def)
    show ?thesis
    proof (cases "p = q")
      case True
      then have "q0 = r0" using sr Cons Cons.prems(3) by simp
      moreover have "prefix (tf @ [q0]) tf'" using other_possibilities_grows [OF run] by simp
      ultimately show ?thesis by (auto simp add: prefix_def)
    next
      case False
      then have "p \<in> set ps" using Cons.prems(2) by simp
      then show ?thesis using Cons.IH run Cons.prems(3) by blast
    qed
  qed
qed

text \<open>What one iteration of the candidate loop does to the entries of \<open>results\<close>.\<close>

lemma candidate_body_dead:
  "Weight (rs ! j) = - 1 \<Longrightarrow> candidate_body varnam t j (rs, tf) = Inr (rs, tf)"
  by (simp add: candidate_body_def)

lemma candidate_body_shape:
  assumes "candidate_body varnam t j (rs, tf) = Inr (rs', tf')" and "j < length rs"
  shows "prefix tf tf' \<and> length rs \<le> length rs'
       \<and> (\<forall>k<length rs. k \<noteq> j \<longrightarrow> rs' ! k = rs ! k)
       \<and> prefix (Word (rs ! j)) (Word (rs' ! j))"
proof (cases "Weight (rs ! j) = - 1")
  case True
  then show ?thesis using assms by (simp add: candidate_body_def)
next
  case False
  then obtain f others where t: "token t = f # others"
    using assms(1) by (cases "token t") (simp_all add: candidate_body_def)
  obtain sr where sr: "searchDictionary varnam [Word (rs ! j) @ value1 f] False = Inr sr"
    using searchDictionary_one by blast
  obtain rs1 tf1 where fp: "first_possibility varnam f j (rs, tf) = Inr (rs1, tf1)"
    and rs1: "length rs1 = length rs" "\<forall>k<length rs. k \<noteq> j \<longrightarrow> rs1 ! k = rs ! k"
      "Word (rs1 ! j) = Word (rs ! j) @ value1 f" and tf1: "prefix tf tf1"
    using assms(2) sr by (cases sr) (simp_all add: first_possibility_eq)
  have op: "other_possibilities varnam (Word (rs ! j)) others (rs1, tf1) = Inr (rs', tf')"
    using assms(1) False t fp by (simp add: candidate_body_def)
  from other_possibilities_grows [OF op] obtain ra where ra: "rs' = rs1 @ ra" and p2: "prefix tf1 tf'"
    by (auto simp add: prefix_def)
  have "prefix tf tf'" using tf1 p2 by (rule prefix_order.trans)
  moreover have "length rs \<le> length rs'" using ra rs1(1) by simp
  moreover have "\<forall>k<length rs. k \<noteq> j \<longrightarrow> rs' ! k = rs ! k"
    using ra rs1(1,2) by (simp add: nth_append)
  moreover have "prefix (Word (rs ! j)) (Word (rs' ! j))"
    using ra rs1(1,3) assms(2) by (simp add: nth_append)
  ultimately show ?thesis by blast
qed

lemma candidate_body_miss:
  assumes "candidate_body varnam t j (rs, tf) = Inr (rs', tf')" and "j < length rs"
    and "Weight (rs ! j) \<noteq> - 1" and "token t = f # others"
    and "searchDictionary varnam [Word (rs ! j) @ value1 f] False = Inr []"
  shows "rs' ! j = (rs ! j)\<lparr>Word := Word (rs ! j) @ value1 f, Weight := - 1\<rparr>
       \<and> (\<forall>p\<in>set others. \<forall>r0 rest.
             searchDictionary varnam [Word (rs ! j) @ value1 p] False = Inr (r0 # rest)
             \<longrightarrow> r0 \<in> set tf')"
proof -
  let ?dead = "(rs ! j)\<lparr>Word := Word (rs ! j) @ value1 f, Weight := - 1\<rparr>"
  have op: "other_possibilities varnam (Word (rs ! j)) others (rs[j := ?dead], tf) = Inr (rs', tf')"
    using assms by (simp add: candidate_body_def first_possibility_eq Let_def)
  from other_possibilities_grows [OF op] obtain ra where "rs' = rs[j := ?dead] @ ra"
    by (auto simp add: prefix_def)
  then have "rs' ! j = ?dead" using assms(2) by (simp add: nth_append)
  then show ?thesis using other_possibilities_hit [OF op] by blast
qed

lemma range_results_Suc_Inr:
  assumes "range_results varnam t j (Suc n) s = Inr s'"
  obtains s1 where "candidate_body varnam t j s = Inr s1"
    and "range_results varnam t (Suc j) n s1 = Inr s'"
  using assms by (cases "candidate_body varnam t j s") simp_all

lemma range_results_shape:
  assumes "range_results varnam t j0 n (rs, tf) = Inr (rs', tf')" and "j0 + n \<le> length rs"
  shows "prefix tf tf' \<and> length rs \<le> length rs'
       \<and> (\<forall>k<length rs. k < j0 \<or> j0 + n \<le> k \<or> Weight (rs ! k) = - 1 \<longrightarrow> rs' ! k = rs ! k)
       \<and> (\<forall>k<length rs. prefix (Word (rs ! k)) (Word (rs' ! k)))"
  using assms
proof (induction n arbitrary: j0 rs tf)
  case 0
  then show ?case by simp
next
  case (Suc n)
  from Suc.prems(1) obtain s1 where
    "candidate_body varnam t j0 (rs, tf) = Inr s1" "range_results varnam t (Suc j0) n s1 = Inr (rs', tf')"
    by (rule range_results_Suc_Inr)
  then obtain ra ta where cb: "candidate_body varnam t j0 (rs, tf) = Inr (ra, ta)"
    and rr: "range_results varnam t (Suc j0) n (ra, ta) = Inr (rs', tf')"
    by (cases s1) auto
  have j0: "j0 < length rs" using Suc.prems(2) by simp
  from candidate_body_shape [OF cb j0]
  have c1: "prefix tf ta" and c2: "length rs \<le> length ra"
    and c3: "\<forall>k<length rs. k \<noteq> j0 \<longrightarrow> ra ! k = rs ! k"
    and c4: "prefix (Word (rs ! j0)) (Word (ra ! j0))"
    by blast+
  have c5: "Weight (rs ! j0) = - 1 \<longrightarrow> ra = rs"
    using cb candidate_body_dead [of rs j0 varnam t tf] by auto
  have "Suc j0 + n \<le> length ra" using Suc.prems(2) c2 by simp
  from Suc.IH [OF rr this]
  have i1: "prefix ta tf'" and i2: "length ra \<le> length rs'"
    and i3: "\<forall>k<length ra. k < Suc j0 \<or> Suc j0 + n \<le> k \<or> Weight (ra ! k) = - 1 \<longrightarrow> rs' ! k = ra ! k"
    and i4: "\<forall>k<length ra. prefix (Word (ra ! k)) (Word (rs' ! k))"
    by blast+
  have g1: "prefix tf tf'" using c1 i1 by (rule prefix_order.trans)
  have g2: "length rs \<le> length rs'" using c2 i2 by simp
  have g3: "\<forall>k<length rs. k < j0 \<or> j0 + Suc n \<le> k \<or> Weight (rs ! k) = - 1 \<longrightarrow> rs' ! k = rs ! k"
  proof (intro allI impI)
    fix k assume k: "k < length rs" and h: "k < j0 \<or> j0 + Suc n \<le> k \<or> Weight (rs ! k) = - 1"
    have kra: "k < length ra" using k c2 by simp
    show "rs' ! k = rs ! k"
    proof (cases "k = j0")
      case True
      then have "Weight (rs ! k) = - 1" using h by auto
      then have "ra = rs" using c5 True by simp
      moreover have "rs' ! k = ra ! k" using i3 kra True by simp
      ultimately show ?thesis by simp
    next
      case False
      then have e: "ra ! k = rs ! k" using c3 k by simp
      have "k < Suc j0 \<or> Suc j0 + n \<le> k \<or> Weight (ra ! k) = - 1" using h e False by auto
      then have "rs' ! k = ra ! k" using i3 kra by blast
      then show ?thesis using e by simp
    qed
  qed
  have g4: "\<forall>k<length rs. prefix (Word (rs ! k)) (Word (rs' ! k))"
  proof (intro allI impI)
    fix k assume k: "k < length rs"
    have kra: "k < length ra" using k c2 by simp
    have "prefix (Word (rs ! k)) (Word (ra ! k))"
      using c3 c4 k by (cases "k = j0") simp_all
    moreover have "prefix (Word (ra ! k)) (Word (rs' ! k))" using i4 kra by blast
    ultimately show "prefix (Word (rs ! k)) (Word (rs' ! k))" by (rule prefix_order.trans)
  qed
  show ?case using g1 g2 g3 g4 by blast
qed

lemma range_results_miss:
  assumes "range_results varnam t j0 n (rs, tf) = Inr (rs', tf')" and "j0 + n \<le> length rs"
    and "j0 \<le> j" and "j < j0 + n"
    and "Weight (rs ! j) \<noteq> - 1" and "token t = f # others"
    and "searchDictionary varnam [Word (rs ! j) @ value1 f] False = Inr []"
  shows "rs' ! j = (rs ! j)\<lparr>Word := Word (rs ! j) @ value1 f, Weight := - 1\<rparr>
       \<and> (\<forall>p\<in>set others. \<forall>r0 rest.
             searchDictionary varnam [Word (rs ! j) @ value1 p] False = Inr (r0 # rest)
             \<longrightarrow> r0 \<in> set tf')"
  using assms(1-5,7)
proof (induction n arbitrary: j0 rs tf)
  case 0
  then show ?case by simp
next
  case (Suc n)
  from Suc.prems(1) obtain s1 where
    "candidate_body varnam t j0 (rs, tf) = Inr s1" "range_results varnam t (Suc j0) n s1 = Inr (rs', tf')"
    by (rule range_results_Suc_Inr)
  then obtain ra ta where cb: "candidate_body varnam t j0 (rs, tf) = Inr (ra, ta)"
    and rr: "range_results varnam t (Suc j0) n (ra, ta) = Inr (rs', tf')"
    by (cases s1) auto
  have j0: "j0 < length rs" and j: "j < length rs" using Suc.prems(2,4) by simp_all
  from candidate_body_shape [OF cb j0]
  have c2: "length rs \<le> length ra" and c3: "\<forall>k<length rs. k \<noteq> j0 \<longrightarrow> ra ! k = rs ! k"
    by blast+
  have bound: "Suc j0 + n \<le> length ra" using Suc.prems(2) c2 by simp
  show ?case
  proof (cases "j = j0")
    case True
    from candidate_body_miss [OF cb j0 _ assms(6)] Suc.prems(5,6) True
    have m1: "ra ! j = (rs ! j)\<lparr>Word := Word (rs ! j) @ value1 f, Weight := - 1\<rparr>"
      and m2: "\<forall>p\<in>set others. \<forall>r0 rest.
             searchDictionary varnam [Word (rs ! j) @ value1 p] False = Inr (r0 # rest)
             \<longrightarrow> r0 \<in> set ta"
      by blast+
    from range_results_shape [OF rr bound]
    have s1: "prefix ta tf'"
      and s3: "\<forall>k<length ra. k < Suc j0 \<or> Suc j0 + n \<le> k \<or> Weight (ra ! k) = - 1 \<longrightarrow> rs' ! k = ra ! k"
      by blast+
    have "rs' ! j = ra ! j" using s3 True j c2 by simp
    moreover have "set ta \<subseteq> set tf'" using s1 by (rule set_mono_prefix)
    ultimately show ?thesis using m1 m2 by auto
  next
    case False
    then have e: "ra ! j = rs ! j" using c3 j by simp
    have "Suc j0 \<le> j" "j < Suc j0 + n" using False Suc.prems(3,4) by simp_all
    from Suc.IH [OF rr bound this] e Suc.prems(5,6)
    show ?thesis by simp
  qed
qed

lemma token_body_symbol:
  assumes "token_body varnam i t s = Inr s'" and "0 < i" and "tokenType t = VARNAM_TOKEN_SYMBOL"
  obtains rs' tf' where "range_results varnam t 0 (length (results s)) (results s, []) = Inr (rs', tf')"
    and "results s' = rs'"
    and "tf' \<noteq> [] \<longrightarrow> foundDictWords s' = tf' \<and> foundPosition s' = position t"
proof (cases "range_results varnam t 0 (length (results s)) (results s, [])")
  case (Inl e)
  then show ?thesis using assms by (simp add: token_body_def)
next
  case (Inr p)
  obtain rs' tf' where p: "p = (rs', tf')" by (cases p)
  have "results s' = rs'" and "tf' \<noteq> [] \<longrightarrow> foundDictWords s' = tf' \<and> foundPosition s' = position t"
    using assms Inr p by (auto simp add: token_body_def split: if_splits)
  then show ?thesis using that Inr p by blast
qed

lemma token_body_shape:
  assumes "token_body varnam i t s = Inr s'"
  shows "length (results s) \<le> length (results s')
       \<and> (\<forall>k<length (results s). Weight (results s ! k) = - 1 \<longrightarrow> results s' ! k = results s ! k)
       \<and> (\<forall>k<length (results s). prefix (Word (results s ! k)) (Word (results s' ! k)))"
proof (cases "tokenType t = VARNAM_TOKEN_SYMBOL \<and> 0 < i")
  case True
  with assms obtain rs' tf' where
    rr: "range_results varnam t 0 (length (results s)) (results s, []) = Inr (rs', tf')"
    and r: "results s' = rs'"
    by (auto elim: token_body_symbol)
  from range_results_shape [OF rr] show ?thesis using r by simp
next
  case False
  then have "results s' = results s \<or> results s' = results s @ map seed (token t)"
    using assms by (auto simp add: token_body_def split: if_splits)
  then show ?thesis by (auto simp add: nth_append)
qed

lemma tokens_loop_shape:
  assumes "tokens_loop varnam i ts s = Inr s'"
  shows "length (results s) \<le> length (results s')
       \<and> (\<forall>k<length (results s). Weight (results s ! k) = - 1 \<longrightarrow> results s' ! k = results s ! k)
       \<and> (\<forall>k<length (results s). prefix (Word (results s ! k)) (Word (results s' ! k)))"
  using assms
proof (induction ts arbitrary: i s)
  case Nil
  then show ?case by simp
next
  case (Cons t ts)
  then obtain s1 where b: "token_body varnam i t s = Inr s1"
    and l: "tokens_loop varnam (Suc i) ts s1 = Inr s'"
    by (cases "token_body varnam i t s") simp_all
  from token_body_shape [OF b]
  have b1: "length (results s) \<le> length (results s1)"
    and b2: "\<forall>k<length (results s). Weight (results s ! k) = - 1 \<longrightarrow> results s1 ! k = results s ! k"
    and b3: "\<forall>k<length (results s). prefix (Word (results s ! k)) (Word (results s1 ! k))"
    by blast+
  from Cons.IH [OF l]
  have l1: "length (results s1) \<le> length (results s')"
    and l2: "\<forall>k<length (results s1). Weight (results s1 ! k) = - 1 \<longrightarrow> results s' ! k = results s1 ! k"
    and l3: "\<forall>k<length (results s1). prefix (Word (results s1 ! k)) (Word (results s' ! k))"
    by blast+
  have "length (results s) \<le> length (results s')" using b1 l1 by simp
  moreover have "\<forall>k<length (results s). Weight (results s ! k) = - 1 \<longrightarrow> results s' ! k = results s ! k"
    using b1 b2 l2 by (metis less_le_trans)
  moreover have "\<forall>k<length (results s). prefix (Word (results s ! k)) (Word (results s' ! k))"
    using b1 b3 l3 by (meson less_le_trans prefix_order.trans)
  ultimately show ?case by blast
qed

text \<open>Replacing a dead entry by another dead entry changes nothing else.\<close>

lemma other_possibilities_update:
  assumes "other_possibilities varnam till ps (rs, tf) = Inr (rs', tf')" and "j < length rs"
  shows "other_possibilities varnam till ps (rs[j := d], tf) = Inr (rs'[j := d], tf')"
  using assms
proof (induction ps arbitrary: rs tf)
  case Nil
  then show ?case by simp
next
  case (Cons p ps)
  obtain sr where sr: "searchDictionary varnam [till @ value1 p] False = Inr sr"
    using searchDictionary_one by blast
  show ?case
  proof (cases sr)
    case Nil
    then have "other_possibilities varnam till ps (rs, tf) = Inr (rs', tf')"
      using Cons.prems(1) sr by (simp add: Let_def)
    from Cons.IH [OF this Cons.prems(2)] show ?thesis using Nil sr by (simp add: Let_def)
  next
    case (Cons r0 rest)
    let ?new = "\<lparr>Word = till @ value1 p, Weight = 0, LearnedOn = 0\<rparr>"
    have run: "other_possibilities varnam till ps (rs @ [?new], tf @ [r0]) = Inr (rs', tf')"
      using Cons.prems(1) sr Cons by (simp add: Let_def)
    have "j < length (rs @ [?new])" using Cons.prems(2) by simp
    from Cons.IH [OF run this]
    have "other_possibilities varnam till ps ((rs @ [?new])[j := d], tf @ [r0]) = Inr (rs'[j := d], tf')" .
    then show ?thesis
      using Cons sr Cons.prems(2) by (simp add: Let_def list_update_append1)
  qed
qed

lemma candidate_body_update:
  assumes "candidate_body varnam t k (rs, tf) = Inr (rs', tf')"
    and "j < length rs" and "k < length rs"
    and "Weight (rs ! j) = - 1" and "Weight d = - 1"
  shows "candidate_body varnam t k (rs[j := d], tf) = Inr (rs'[j := d], tf')"
proof (cases "k = j \<or> Weight (rs ! k) = - 1")
  case True
  then have dead: "Weight (rs ! k) = - 1" using assms(4) by auto
  then have "rs' = rs" "tf' = tf" using assms(1) by (simp_all add: candidate_body_def)
  moreover have "Weight (rs[j := d] ! k) = - 1"
    using dead assms(2,5) by (cases "k = j") simp_all
  ultimately show ?thesis by (simp add: candidate_body_def)
next
  case False
  then have kj: "k \<noteq> j" and live: "Weight (rs ! k) \<noteq> - 1" by simp_all
  obtain f others where t: "token t = f # others"
    using assms(1) live by (cases "token t") (simp_all add: candidate_body_def)
  obtain sr where sr: "searchDictionary varnam [Word (rs ! k) @ value1 f] False = Inr sr"
    using searchDictionary_one by blast
  have nth: "rs[j := d] ! k = rs ! k" using kj by simp
  have len: "k < length (rs[j := d])" using assms(3) by simp
  show ?thesis
  proof (cases sr)
    case Nil
    let ?x = "(rs ! k)\<lparr>Word := Word (rs ! k) @ value1 f, Weight := - 1\<rparr>"
    have "other_possibilities varnam (Word (rs ! k)) others (rs[k := ?x], tf) = Inr (rs', tf')"
      using assms(1,3) live t sr Nil by (simp add: candidate_body_def first_possibility_eq Let_def)
    then have "other_possibilities varnam (Word (rs ! k)) others (rs[k := ?x, j := d], tf)
        = Inr (rs'[j := d], tf')"
      using assms(2) by (intro other_possibilities_update) simp_all
    then show ?thesis
      using live t sr Nil nth len kj
      by (simp add: candidate_body_def first_possibility_eq Let_def list_update_swap [of j k])
  next
    case (Cons r0 rest)
    let ?x = "(rs ! k)\<lparr>Word := Word (rs ! k) @ value1 f\<rparr>"
    have "other_possibilities varnam (Word (rs ! k)) others (rs[k := ?x], tf @ [r0]) = Inr (rs', tf')"
      using assms(1,3) live t sr Cons by (simp add: candidate_body_def first_possibility_eq Let_def)
    then have "other_possibilities varnam (Word (rs ! k)) others (rs[k := ?x, j := d], tf @ [r0])
        = Inr (rs'[j := d], tf')"
      using assms(2) by (intro other_possibilities_update) simp_all
    then show ?thesis
      using live t sr Cons nth len kj
      by (simp add: candidate_body_def first_possibility_eq Let_def list_update_swap [of j k])
  qed
qed

lemma range_results_update:
  assumes "range_results varnam t j0 n (rs, tf) = Inr (rs', tf')" and "j0 + n \<le> length rs"
    and "j < length rs" and "Weight (rs ! j) = - 1" and "Weight d = - 1"
  shows "range_results varnam t j0 n (rs[j := d], tf) = Inr (rs'[j := d], tf')"
  using assms(1-4)
proof (induction n arbitrary: j0 rs tf)
  case 0
  then show ?case by simp
next
  case (Suc n)
  from Suc.prems(1) obtain s1 where
    "candidate_body varnam t j0 (rs, tf) = Inr s1" "range_results varnam t (Suc j0) n s1 = Inr (rs', tf')"
    by (rule range_results_Suc_Inr)
  then obtain ra ta where cb: "candidate_body varnam t j0 (rs, tf) = Inr (ra, ta)"
    and rr: "range_results varnam t (Suc j0) n (ra, ta) = Inr (rs', tf')"
    by (cases s1) auto
  have j0: "j0 < length rs" using Suc.prems(2) by simp
  from candidate_body_shape [OF cb j0]
  have c2: "length rs \<le> length ra" and c3: "\<forall>k<length rs. k \<noteq> j0 \<longrightarrow> ra ! k = rs ! k"
    by blast+
  have "ra ! j = rs ! j"
    using c3 Suc.prems(3,4) cb candidate_body_dead [of rs j varnam t tf] by (cases "j = j0") auto
  then have dead: "Weight (ra ! j) = - 1" using Suc.prems(4) by simp
  have "Suc j0 + n \<le> length ra" "j < length ra" using Suc.prems(2,3) c2 by simp_all
  from Suc.IH [OF rr this dead]
  have "range_results varnam t (Suc j0) n (ra[j := d], ta) = Inr (rs'[j := d], tf')" .
  moreover have "candidate_body varnam t j0 (rs[j := d], tf) = Inr (ra[j := d], ta)"
    using cb Suc.prems(3) j0 Suc.prems(4) assms(5) by (rule candidate_body_update)
  ultimately show ?case by simp
qed

lemma token_body_update:
  assumes "token_body varnam i t s = Inr s'"
    and "j < length (results s)" and "Weight (results s ! j) = - 1" and "Weight d = - 1"
  shows "token_body varnam i t (s\<lparr>results := (results s)[j := d]\<rparr>)
           = Inr (s'\<lparr>results := (results s')[j := d]\<rparr>)"
proof (cases "tokenType t = VARNAM_TOKEN_SYMBOL \<and> 0 < i")
  case True
  with assms(1) obtain rs' tf' where
    rr: "range_results varnam t 0 (length (results s)) (results s, []) = Inr (rs', tf')"
    by (auto elim: token_body_symbol)
  have "range_results varnam t 0 (length (results s)) ((results s)[j := d], [])
          = Inr (rs'[j := d], tf')"
    using rr _ assms(2,3,4) by (rule range_results_update) simp
  then show ?thesis
    using True assms(1) rr by (auto simp add: token_body_def split: if_splits)
next
  case False
  then show ?thesis
    using assms by (auto simp add: token_body_def list_update_append1 split: if_splits)
qed

lemma tokens_loop_update:
  assumes "tokens_loop varnam i ts s = Inr s'"
    and "j < length (results s)" and "Weight (results s ! j) = - 1" and "Weight d = - 1"
  shows "tokens_loop varnam i ts (s\<lparr>results := (results s)[j := d]\<rparr>)
           = Inr (s'\<lparr>results := (results s')[j := d]\<rparr>)"
  using assms(1-3)
proof (induction ts arbitrary: i s)
  case Nil
  then show ?case by simp
next
  case (Cons t ts)
  then obtain s1 where b: "token_body varnam i t s = Inr s1"
    and l: "tokens_loop varnam (Suc i) ts s1 = Inr s'"
    by (cases "token_body varnam i t s") simp_all
  from token_body_shape [OF b] Cons.prems(2,3)
  have j: "j < length (results s1)" and dead: "Weight (results s1 ! j) = - 1"
    by auto
  from Cons.IH [OF l j dead]
  have "tokens_loop varnam (Suc i) ts (s1\<lparr>results := (results s1)[j := d]\<rparr>)
          = Inr (s'\<lparr>results := (results s')[j := d]\<rparr>)" .
  moreover from token_body_update [OF b Cons.prems(2,3) assms(4)]
  have "token_body varnam i t (s\<lparr>results := (results s)[j := d]\<rparr>)
          = Inr (s1\<lparr>results := (results s1)[j := d]\<rparr>)" .
  ultimately show ?case by simp
qed

lemma tokens_loop_append:
  "tokens_loop varnam i (pre @ ts) s =
     (case tokens_loop varnam i pre s of
        Inl e \<Rightarrow> Inl e
      | Inr s1 \<Rightarrow> tokens_loop varnam (i + length pre) ts s1)"
  by (induction pre arbitrary: i s) (auto split: sum.splits)


text \<open>
  C1. Let a \<open>SYMBOL\<close> token \<open>t\<close> with first possibility \<open>firstToken\<close> be processed at an
  index \<open>i > 0\<close>, and let the in-flight candidate at index \<open>j\<close> be live and fail the exact
  lookup of its word extended by \<open>firstToken\<close>. Then the iteration returns, and in the
  state \<open>s'\<close> after it
  \<^item> entry \<open>j\<close> carries the extended word and the weight \<open>-1\<close>;
  \<^item> the in-flight list has not shrunk and every earlier candidate is still at its index,
    its word the old one or an extension of it;
  \<^item> every other possibility of \<open>t\<close> whose extension of the word before the extension is
    found contributes its hit to the found words of this position;
  \<^item> in every continuation of the loop, entry \<open>j\<close> stays as it is, and the found words, the
    found position and all other entries are the same whatever word the dead entry holds:
    nothing is looked up for it or built from it;
  \<^item> the \<open>DictionaryResult\<close> of the whole input is made of the found words and position at
    the end of that continuation.
\<close>

theorem dead_branch_pruning:
  assumes "0 < i" and "tokenType t = VARNAM_TOKEN_SYMBOL" and "token t = firstToken # others"
    and "j < length (results s)" and "Weight (results s ! j) \<noteq> - 1"
    and "searchDictionary varnam [Word (results s ! j) @ value1 firstToken] False = Inr []"
  shows "\<exists>s'. token_body varnam i t s = Inr s'
    \<and> results s' ! j =
        (results s ! j)\<lparr>Word := Word (results s ! j) @ value1 firstToken, Weight := - 1\<rparr>
    \<and> length (results s) \<le> length (results s')
    \<and> (\<forall>k<length (results s). prefix (Word (results s ! k)) (Word (results s' ! k)))
    \<and> (\<forall>p\<in>set others. \<forall>r0 rest.
          searchDictionary varnam [Word (results s ! j) @ value1 p] False = Inr (r0 # rest)
          \<longrightarrow> r0 \<in> set (foundDictWords s') \<and> foundPosition s' = position t)
    \<and> (\<forall>i' ts s''. tokens_loop varnam i' ts s' = Inr s'' \<longrightarrow>
          length (results s') \<le> length (results s'')
        \<and> results s'' ! j = results s' ! j
        \<and> (\<forall>w. tokens_loop varnam i' ts
                   (s'\<lparr>results := (results s')[j := (results s' ! j)\<lparr>Word := w\<rparr>]\<rparr>)
                 = Inr (s''\<lparr>results := (results s'')[j := (results s' ! j)\<lparr>Word := w\<rparr>]\<rparr>)))
    \<and> (\<forall>pre ts s''. tokens_loop varnam 0 pre init_state = Inr s \<and> length pre = i
            \<and> tokens_loop varnam (Suc i) ts s' = Inr s'' \<longrightarrow>
          getFromDictionary varnam (pre @ t # ts) =
            Inr \<lparr>sugs = foundDictWords s'',
                 exactMatch = (foundPosition s'' = position (last (t # ts))),
                 longestMatchPosition = foundPosition s''\<rparr>)"
proof -
  have "token t \<noteq> []" using assms(3) by simp
  then obtain s' where step: "token_body varnam i t s = Inr s'"
    using token_body_Inr [of i t varnam s] by blast
  from step assms(1,2) obtain rs' tf' where
    rr: "range_results varnam t 0 (length (results s)) (results s, []) = Inr (rs', tf')"
    and res: "results s' = rs'"
    and found: "tf' \<noteq> [] \<longrightarrow> foundDictWords s' = tf' \<and> foundPosition s' = position t"
    by (rule token_body_symbol)
  from range_results_miss [OF rr _ _ _ assms(5,3,6)] assms(4)
  have dead: "rs' ! j = (results s ! j)\<lparr>Word := Word (results s ! j) @ value1 firstToken, Weight := - 1\<rparr>"
    and hits: "\<forall>p\<in>set others. \<forall>r0 rest.
             searchDictionary varnam [Word (results s ! j) @ value1 p] False = Inr (r0 # rest)
             \<longrightarrow> r0 \<in> set tf'"
    by simp_all
  from token_body_shape [OF step]
  have len: "length (results s) \<le> length (results s')"
    and ext: "\<forall>k<length (results s). prefix (Word (results s ! k)) (Word (results s' ! k))"
    by blast+
  have c1: "results s' ! j =
        (results s ! j)\<lparr>Word := Word (results s ! j) @ value1 firstToken, Weight := - 1\<rparr>"
    using dead res by simp
  have j': "j < length (results s')" using assms(4) len by simp
  have w': "Weight (results s' ! j) = - 1" using c1 by simp
  have c4: "\<forall>p\<in>set others. \<forall>r0 rest.
          searchDictionary varnam [Word (results s ! j) @ value1 p] False = Inr (r0 # rest)
          \<longrightarrow> r0 \<in> set (foundDictWords s') \<and> foundPosition s' = position t"
  proof (intro ballI allI impI)
    fix p r0 rest
    assume "p \<in> set others"
      and "searchDictionary varnam [Word (results s ! j) @ value1 p] False = Inr (r0 # rest)"
    then have "r0 \<in> set tf'" using hits by blast
    moreover from this have "tf' \<noteq> []" by auto
    ultimately show "r0 \<in> set (foundDictWords s') \<and> foundPosition s' = position t"
      using found by simp
  qed
  have c5: "\<forall>i' ts s''. tokens_loop varnam i' ts s' = Inr s'' \<longrightarrow>
          length (results s') \<le> length (results s'')
        \<and> results s'' ! j = results s' ! j
        \<and> (\<forall>w. tokens_loop varnam i' ts
                   (s'\<lparr>results := (results s')[j := (results s' ! j)\<lparr>Word := w\<rparr>]\<rparr>)
                 = Inr (s''\<lparr>results := (results s'')[j := (results s' ! j)\<lparr>Word := w\<rparr>]\<rparr>))"
  proof (intro allI impI)
    fix i' ts s''
    assume run: "tokens_loop varnam i' ts s' = Inr s''"
    from tokens_loop_shape [OF run] j' w'
    have a: "length (results s') \<le> length (results s'')"
      and b: "results s'' ! j = results s' ! j"
      by auto
    have "\<forall>w. tokens_loop varnam i' ts
                   (s'\<lparr>results := (results s')[j := (results s' ! j)\<lparr>Word := w\<rparr>]\<rparr>)
                 = Inr (s''\<lparr>results := (results s'')[j := (results s' ! j)\<lparr>Word := w\<rparr>]\<rparr>)"
    proof
      fix w
      have "Weight ((results s' ! j)\<lparr>Word := w\<rparr>) = - 1" using w' by simp
      from tokens_loop_update [OF run j' w' this]
      show "tokens_loop varnam i' ts
                   (s'\<lparr>results := (results s')[j := (results s' ! j)\<lparr>Word := w\<rparr>]\<rparr>)
                 = Inr (s''\<lparr>results := (results s'')[j := (results s' ! j)\<lparr>Word := w\<rparr>]\<rparr>)" .
    qed
    then show "length (results s') \<le> length (results s'')
        \<and> results s'' ! j = results s' ! j
        \<and> (\<forall>w. tokens_loop varnam i' ts
                   (s'\<lparr>results := (results s')[j := (results s' ! j)\<lparr>Word := w\<rparr>]\<rparr>)
                 = Inr (s''\<lparr>results := (results s'')[j := (results s' ! j)\<lparr>Word := w\<rparr>]\<rparr>))"
      using a b by blast
  qed
  have c6: "\<forall>pre ts s''. tokens_loop varnam 0 pre init_state = Inr s \<and> length pre = i
            \<and> tokens_loop varnam (Suc i) ts s' = Inr s'' \<longrightarrow>
          getFromDictionary varnam (pre @ t # ts) =
            Inr \<lparr>sugs = foundDictWords s'',
                 exactMatch = (foundPosition s'' = position (last (t # ts))),
                 longestMatchPosition = foundPosition s''\<rparr>"
  proof (intro allI impI)
    fix pre ts s''
    assume h: "tokens_loop varnam 0 pre init_state = Inr s \<and> length pre = i
            \<and> tokens_loop varnam (Suc i) ts s' = Inr s''"
    then have "tokens_loop varnam 0 (pre @ t # ts) init_state = Inr s''"
      using step by (simp add: tokens_loop_append)
    then show "getFromDictionary varnam (pre @ t # ts) =
            Inr \<lparr>sugs = foundDictWords s'',
                 exactMatch = (foundPosition s'' = position (last (t # ts))),
                 longestMatchPosition = foundPosition s''\<rparr>"
      by (simp add: getFromDictionary_def)
  qed
  show ?thesis
    using step c1 len ext c4 c5 c6 by (intro exI [of _ s'] conjI)
qed

lemmas branch_defs = matcher_defs store_branch_def seeded_ab_def pruned_ab_def

theorem dead_branch_pruning_witness:
  "token_body store_branch 1 (symbol_token [''x'', ''y''] 1) seeded_ab = Inr pruned_ab
   \<and> results pruned_ab ! 0 = \<lparr>Word = ascii ''ax'', Weight = - 1, LearnedOn = 0\<rparr>
   \<and> \<lparr>Word = ascii ''ay'', Weight = 4, LearnedOn = 9\<rparr> \<in> set (foundDictWords pruned_ab)
   \<and> tokens_loop store_branch 2 [symbol_token [''z''] 2]
        (pruned_ab\<lparr>results := (results pruned_ab)[0 := (results pruned_ab ! 0)\<lparr>Word := ascii ''bx''\<rparr>]\<rparr>)
      = Inr \<lparr>results = [\<lparr>Word = ascii ''bx'', Weight = - 1, LearnedOn = 0\<rparr>,
                        \<lparr>Word = ascii ''bxz'', Weight = 0, LearnedOn = 0\<rparr>,
                        \<lparr>Word = ascii ''ayz'', Weight = - 1, LearnedOn = 0\<rparr>],
             foundDictWords = [\<lparr>Word = ascii ''bxz'', Weight = 3, LearnedOn = 9\<rparr>],
             foundPosition = 2\<rparr>
   \<and> getFromDictionary store_branch
        [symbol_token [''a'', ''b''] 0, symbol_token [''x'', ''y''] 1, symbol_token [''z''] 2]
      = Inr \<lparr>sugs = [\<lparr>Word = ascii ''bxz'', Weight = 3, LearnedOn = 9\<rparr>],
             exactMatch = True, longestMatchPosition = 2\<rparr>"
proof -
  let ?t = "symbol_token [''x'', ''y''] 1"
  let ?s2 = "\<lparr>results = [\<lparr>Word = ascii ''ax'', Weight = - 1, LearnedOn = 0\<rparr>,
                        \<lparr>Word = ascii ''bxz'', Weight = 0, LearnedOn = 0\<rparr>,
                        \<lparr>Word = ascii ''ayz'', Weight = - 1, LearnedOn = 0\<rparr>],
             foundDictWords = [\<lparr>Word = ascii ''bxz'', Weight = 3, LearnedOn = 9\<rparr>],
             foundPosition = 2\<rparr>"
  have h1: "0 < (1::nat)" by simp
  have h2: "tokenType ?t = VARNAM_TOKEN_SYMBOL" by (simp add: symbol_token_def)
  have h3: "token ?t = \<lparr>value1 = ascii ''x''\<rparr> # [\<lparr>value1 = ascii ''y''\<rparr>]"
    by (simp add: symbol_token_def)
  have h4: "0 < length (results seeded_ab)" by (simp add: seeded_ab_def)
  have h5: "Weight (results seeded_ab ! 0) \<noteq> - 1" by (simp add: seeded_ab_def)
  have h6: "searchDictionary store_branch
      [Word (results seeded_ab ! 0) @ value1 \<lparr>value1 = ascii ''x''\<rparr>] False = Inr []"
    by (simp add: branch_defs)
  have step: "token_body store_branch 1 ?t seeded_ab = Inr pruned_ab"
    by (simp add: branch_defs)
  have sib: "searchDictionary store_branch
      [Word (results seeded_ab ! 0) @ value1 \<lparr>value1 = ascii ''y''\<rparr>] False
        = Inr (\<lparr>Word = ascii ''ay'', Weight = 4, LearnedOn = 9\<rparr> # [])"
    by (simp add: branch_defs)
  have seed: "tokens_loop store_branch 0 [symbol_token [''a'', ''b''] 0] init_state = Inr seeded_ab"
    by (simp add: branch_defs)
  have deeper: "tokens_loop store_branch 2 [symbol_token [''z''] 2] pruned_ab = Inr ?s2"
    by (simp add: branch_defs)
  from dead_branch_pruning [OF h1 h2 h3 h4 h5 h6] step
  have c1: "results pruned_ab ! 0 =
        (results seeded_ab ! 0)\<lparr>Word := Word (results seeded_ab ! 0) @ value1 \<lparr>value1 = ascii ''x''\<rparr>,
                                Weight := - 1\<rparr>"
    and c4: "\<forall>p\<in>set [\<lparr>value1 = ascii ''y''\<rparr>]. \<forall>r0 rest.
          searchDictionary store_branch [Word (results seeded_ab ! 0) @ value1 p] False = Inr (r0 # rest)
          \<longrightarrow> r0 \<in> set (foundDictWords pruned_ab) \<and> foundPosition pruned_ab = position ?t"
    and c5: "\<forall>i' ts s''. tokens_loop store_branch i' ts pruned_ab = Inr s'' \<longrightarrow>
          length (results pruned_ab) \<le> length (results s'')
        \<and> results s'' ! 0 = results pruned_ab ! 0
        \<and> (\<forall>w. tokens_loop store_branch i' ts
                   (pruned_ab\<lparr>results := (results pruned_ab)[0 := (results pruned_ab ! 0)\<lparr>Word := w\<rparr>]\<rparr>)
                 = Inr (s''\<lparr>results := (results s'')[0 := (results pruned_ab ! 0)\<lparr>Word := w\<rparr>]\<rparr>))"
    and c6: "\<forall>pre ts s''. tokens_loop store_branch 0 pre init_state = Inr seeded_ab \<and> length pre = 1
            \<and> tokens_loop store_branch (Suc 1) ts pruned_ab = Inr s'' \<longrightarrow>
          getFromDictionary store_branch (pre @ ?t # ts) =
            Inr \<lparr>sugs = foundDictWords s'',
                 exactMatch = (foundPosition s'' = position (last (?t # ts))),
                 longestMatchPosition = foundPosition s''\<rparr>"
    by auto
  have w1: "results pruned_ab ! 0 = \<lparr>Word = ascii ''ax'', Weight = - 1, LearnedOn = 0\<rparr>"
    using c1 by (simp add: seeded_ab_def ascii_def)
  have w2: "\<lparr>Word = ascii ''ay'', Weight = 4, LearnedOn = 9\<rparr> \<in> set (foundDictWords pruned_ab)"
    using c4 sib by simp
  from c5 [rule_format, of 2 "[symbol_token [''z''] 2]" ?s2, OF deeper]
  have "tokens_loop store_branch 2 [symbol_token [''z''] 2]
          (pruned_ab\<lparr>results := (results pruned_ab)[0 := (results pruned_ab ! 0)\<lparr>Word := ascii ''bx''\<rparr>]\<rparr>)
        = Inr (?s2\<lparr>results := (results ?s2)[0 := (results pruned_ab ! 0)\<lparr>Word := ascii ''bx''\<rparr>]\<rparr>)"
    by blast
  then have w3: "tokens_loop store_branch 2 [symbol_token [''z''] 2]
        (pruned_ab\<lparr>results := (results pruned_ab)[0 := (results pruned_ab ! 0)\<lparr>Word := ascii ''bx''\<rparr>]\<rparr>)
      = Inr \<lparr>results = [\<lparr>Word = ascii ''bx'', Weight = - 1, LearnedOn = 0\<rparr>,
                        \<lparr>Word = ascii ''bxz'', Weight = 0, LearnedOn = 0\<rparr>,
                        \<lparr>Word = ascii ''ayz'', Weight = - 1, LearnedOn = 0\<rparr>],
             foundDictWords = [\<lparr>Word = ascii ''bxz'', Weight = 3, LearnedOn = 9\<rparr>],
             foundPosition = 2\<rparr>"
    by (simp add: pruned_ab_def)
  have deeper': "tokens_loop store_branch (Suc 1) [symbol_token [''z''] 2] pruned_ab = Inr ?s2"
    using deeper by (simp add: numeral_2_eq_2)
  have pre1: "length [symbol_token [''a'', ''b''] 0] = 1" by simp
  from c6 [rule_format, of "[symbol_token [''a'', ''b''] 0]" "[symbol_token [''z''] 2]" ?s2,
           OF conjI [OF seed conjI [OF pre1 deeper']]]
  have "getFromDictionary store_branch ([symbol_token [''a'', ''b''] 0] @ ?t # [symbol_token [''z''] 2]) =
            Inr \<lparr>sugs = foundDictWords ?s2,
                 exactMatch = (foundPosition ?s2 = position (last (?t # [symbol_token [''z''] 2]))),
                 longestMatchPosition = foundPosition ?s2\<rparr>" .
  then have w4: "getFromDictionary store_branch
        [symbol_token [''a'', ''b''] 0, symbol_token [''x'', ''y''] 1, symbol_token [''z''] 2]
      = Inr \<lparr>sugs = [\<lparr>Word = ascii ''bxz'', Weight = 3, LearnedOn = 9\<rparr>],
             exactMatch = True, longestMatchPosition = 2\<rparr>"
    by (simp add: symbol_token_def)
  show ?thesis using step w1 w2 w3 w4 by (intro conjI)
qed

end
